theory Spec2Isabelle
  imports Main
begin

section \<open>Scroll coordination for a chat message list\<close>

text \<open>
  The repository holds two versions of the React hook \<open>useAutoScroll\<close> and the component
  \<open>ChatAutoScroll\<close> that uses it.

  \<^item> The observer version (first file of \<open>src/unnamed/part_000\<close>) takes the
    IntersectionObserver as the only writer of \<open>isAtBottom\<close> and guards its handlers
    with the ref \<open>isScrollingProgrammaticallyRef\<close>. Its functions keep the source's
    names below.
  \<^item> The offset-arithmetic version (\<open>src/useAutoScroll.ts\<close>) recomputes \<open>isAtBottom\<close>
    from the container's scroll offsets inside \<open>handleScroll\<close> and releases
    \<open>isUserScrolling\<close> through a 150 ms timer. Its functions carry the suffix \<open>_B\<close>.
  \<^item> The component (second file of \<open>src/unnamed/part_000\<close>) adds \<open>handleNewChat\<close> and
    \<open>handleLoadOldMessages\<close>.

  JavaScript runs every handler to completion on one thread, and React commits the state
  updates of a handler before the next handler runs. So each handler is a function from
  the state before it to the state after it; timers (\<open>setTimeout\<close>) and animation-frame
  callbacks (\<open>requestAnimationFrame\<close>) are queues in the state, and the passing of time,
  the painting of a frame and the changes of the DOM are events of their own. Pixel
  values and milliseconds are integers.
\<close>

subsection \<open>Data\<close>

text \<open>The four \<open>useState\<close> values, shared by both versions of the hook.\<close>

record flags =
  isAtBottom :: bool
  shouldAutoScroll :: bool
  isUserScrolling :: bool
  isLoadingOldMessages :: bool

text \<open>What the code reads and writes of the scrollable \<open>div\<close>.\<close>

record container =
  scrollTop :: int
  scrollHeight :: int
  clientHeight :: int

text \<open>
  The callbacks that the observer version and the component hand to \<open>setTimeout\<close> and
  to \<open>requestAnimationFrame\<close>, with the values their closures capture.
\<close>

datatype timer_action =
    ClearProgrammatic      \<comment> \<open>\<open>isScrollingProgrammaticallyRef.current = false\<close>\<close>
  | ClearLoading           \<comment> \<open>\<open>setIsLoadingOldMessages(false)\<close>\<close>
  | DeferredScroll         \<comment> \<open>\<open>scrollToBottom(false)\<close>, from \<open>handleNewChat\<close>\<close>

datatype frame_action =
    AutoScroll bool        \<comment> \<open>\<open>scrollToBottom(smooth)\<close>, from the auto-scroll effect\<close>
  | Compensate int int     \<comment> \<open>\<open>scrollTopBefore\<close>, \<open>scrollHeightBefore\<close>\<close>

text \<open>Calls that leave the code: into the DOM and into the host's callbacks.\<close>

datatype effect =
    ScrollIntoView bool    \<comment> \<open>\<open>messagesEndRef.current.scrollIntoView\<close>, smooth or not\<close>
  | OnLoadOldMessages
  | OnNewChat

text \<open>
  The state of the observer version together with the component. A ref to a DOM
  element is a boolean (is \<open>.current\<close> non-null) and, for the container, the element's
  own state: \<open>handleLoadOldMessages\<close> keeps the element in a closure, so the element
  outlives the ref. A timer is its remaining delay in milliseconds and its callback.
\<close>

record chat = flags +
  isScrollingProgrammaticallyRef :: bool
  chatMessagesRef :: bool
  messagesEndRef :: bool
  element :: container
  timers :: "(nat \<times> timer_action) list"
  frames :: "frame_action list"
  effects :: "effect list"

subsection \<open>The observer version of the hook\<close>

text \<open>\<open>showScrollButton\<close>, computed on every render from three of the flags.\<close>

definition showScrollButton :: "'a flags_scheme \<Rightarrow> bool" where
  "showScrollButton s \<longleftrightarrow>
     \<not> isAtBottom s \<and> \<not> isLoadingOldMessages s \<and> isUserScrolling s"

text \<open>
  One entry of the IntersectionObserver callback. \<open>wasAtBottom\<close> is the \<open>isAtBottom\<close>
  of the closure, \<open>nowAtBottom\<close> is \<open>entry.isIntersecting\<close>; the ref is read when the
  callback runs.
\<close>

definition observerEntry :: "bool \<Rightarrow> bool \<Rightarrow> chat \<Rightarrow> chat" where
  "observerEntry wasAtBottom nowAtBottom s =
     (let s1 = s\<lparr>isAtBottom := nowAtBottom\<rparr> in
      if \<not> wasAtBottom \<and> nowAtBottom \<and> \<not> isScrollingProgrammaticallyRef s1
      then s1\<lparr>shouldAutoScroll := True, isUserScrolling := False\<rparr>
      else s1)"

text \<open>
  \<open>entries.forEach\<close>: every entry is compared with the same captured \<open>isAtBottom\<close>,
  that of the render which installed the observer.
\<close>

definition observerCallback :: "bool list \<Rightarrow> chat \<Rightarrow> chat" where
  "observerCallback entries s =
     foldl (\<lambda>acc nowAtBottom. observerEntry (isAtBottom s) nowAtBottom acc) s entries"

definition setTimeout :: "timer_action \<Rightarrow> nat \<Rightarrow> chat \<Rightarrow> chat" where
  "setTimeout a delay s = s\<lparr>timers := timers s @ [(delay, a)]\<rparr>"

definition requestAnimationFrame :: "frame_action \<Rightarrow> chat \<Rightarrow> chat" where
  "requestAnimationFrame f s = s\<lparr>frames := frames s @ [f]\<rparr>"

definition perform :: "effect \<Rightarrow> chat \<Rightarrow> chat" where
  "perform e s = s\<lparr>effects := effects s @ [e]\<rparr>"

text \<open>
  \<open>scrollToBottom(smooth)\<close>: nothing without the anchor; otherwise raise the ref, call
  \<open>scrollIntoView\<close>, and start the timer that lowers the ref again.
\<close>

definition scrollToBottom :: "bool \<Rightarrow> chat \<Rightarrow> chat" where
  "scrollToBottom smooth s =
     (if messagesEndRef s then
        let s1 = s\<lparr>isScrollingProgrammaticallyRef := True\<rparr>;
            s2 = perform (ScrollIntoView smooth) s1
        in setTimeout ClearProgrammatic (if smooth then 500 else 0) s2
      else s)"

text \<open>
  The auto-scroll effect, run by React when \<open>messagesLength\<close>, \<open>isStreaming\<close>,
  \<open>shouldAutoScroll\<close> or \<open>isAtBottom\<close> changed. The frame callback captures
  \<open>isStreaming\<close> of that render.
\<close>

definition autoScrollEffect :: "bool \<Rightarrow> chat \<Rightarrow> chat" where
  "autoScrollEffect isStreaming s =
     (if shouldAutoScroll s \<and> isAtBottom s
      then requestAnimationFrame (AutoScroll (\<not> isStreaming)) s
      else s)"

definition handleScroll :: "bool \<Rightarrow> chat \<Rightarrow> chat" where
  "handleScroll isStreaming s =
     (if isScrollingProgrammaticallyRef s then s
      else if \<not> isAtBottom s \<and> \<not> isStreaming
      then s\<lparr>isUserScrolling := True, shouldAutoScroll := False\<rparr>
      else s)"

definition handleScrollToBottom :: "chat \<Rightarrow> chat" where
  "handleScrollToBottom s =
     scrollToBottom True (s\<lparr>shouldAutoScroll := True, isUserScrolling := False\<rparr>)"

subsection \<open>The component\<close>

definition handleNewChat :: "chat \<Rightarrow> chat" where
  "handleNewChat s =
     setTimeout DeferredScroll 0
       (perform OnNewChat (s\<lparr>isLoadingOldMessages := False\<rparr>))"

text \<open>
  \<open>handleLoadOldMessages\<close>: the flag is raised first, then the container is looked up,
  and the function returns at once when there is none.
\<close>

definition handleLoadOldMessages :: "chat \<Rightarrow> chat" where
  "handleLoadOldMessages s =
     (let s1 = s\<lparr>isLoadingOldMessages := True\<rparr> in
      if \<not> chatMessagesRef s1 then s1
      else
        let scrollHeightBefore = scrollHeight (element s1);
            scrollTopBefore = scrollTop (element s1);
            s2 = perform OnLoadOldMessages s1
        in requestAnimationFrame (Compensate scrollTopBefore scrollHeightBefore) s2)"

text \<open>
  The frame callback of \<open>handleLoadOldMessages\<close>. Its test \<open>if (container)\<close> is on the
  captured element, which is non-null there.
\<close>

definition compensate :: "int \<Rightarrow> int \<Rightarrow> chat \<Rightarrow> chat" where
  "compensate scrollTopBefore scrollHeightBefore s =
     (let scrollHeightAfter = scrollHeight (element s);
          scrollDiff = scrollHeightAfter - scrollHeightBefore;
          s1 = s\<lparr>element := (element s)\<lparr>scrollTop := scrollTopBefore + scrollDiff\<rparr>\<rparr>
      in setTimeout ClearLoading 500 s1)"

subsection \<open>Timers, frames and events\<close>

fun fireTimer :: "timer_action \<Rightarrow> chat \<Rightarrow> chat" where
  "fireTimer ClearProgrammatic s = s\<lparr>isScrollingProgrammaticallyRef := False\<rparr>"
| "fireTimer ClearLoading s = s\<lparr>isLoadingOldMessages := False\<rparr>"
| "fireTimer DeferredScroll s = scrollToBottom False s"

fun runFrame :: "frame_action \<Rightarrow> chat \<Rightarrow> chat" where
  "runFrame (AutoScroll smooth) s = scrollToBottom smooth s"
| "runFrame (Compensate scrollTopBefore scrollHeightBefore) s =
     compensate scrollTopBefore scrollHeightBefore s"

text \<open>
  The timer that fires next within \<open>d\<close> milliseconds: the one with the least remaining
  delay, and among equals the one created first.
\<close>

fun nextDue :: "nat \<Rightarrow> (nat \<times> timer_action) list \<Rightarrow> (nat \<times> timer_action) option" where
  "nextDue d [] = None"
| "nextDue d (t # ts) =
     (case nextDue d ts of
        None \<Rightarrow> if fst t \<le> d then Some t else None
      | Some u \<Rightarrow> if fst t \<le> fst u then Some t else Some u)"

definition elapse :: "nat \<Rightarrow> (nat \<times> timer_action) list \<Rightarrow> (nat \<times> timer_action) list" where
  "elapse d ts = map (\<lambda>t. (fst t - d, snd t)) ts"

text \<open>
  A bound on the callbacks that a list of timers can still run: the deferred scroll
  starts one more timer, the others start none.
\<close>

fun weight :: "timer_action \<Rightarrow> nat" where
  "weight DeferredScroll = 2"
| "weight a = 1"

definition load :: "(nat \<times> timer_action) list \<Rightarrow> nat" where
  "load ts = sum_list (map (\<lambda>t. weight (snd t)) ts)"

text \<open>
  \<open>d\<close> milliseconds pass. The timers fire in the order of their deadlines: time moves
  to the next deadline, that timer leaves the queue and its callback runs, and a timer
  the callback starts joins the queue with its full delay, so that it fires within the
  same \<open>d\<close> milliseconds when its delay allows. What is left waits \<open>d\<close> less.
\<close>

function tick :: "nat \<Rightarrow> chat \<Rightarrow> chat" where
  "tick d s =
     (case nextDue d (timers s) of
        None \<Rightarrow> s\<lparr>timers := elapse d (timers s)\<rparr>
      | Some t \<Rightarrow>
          tick (d - fst t)
            (fireTimer (snd t) (s\<lparr>timers := elapse (fst t) (remove1 t (timers s))\<rparr>)))"
  by pat_completeness auto
termination
proof (relation "measure (\<lambda>(d, s). load (timers s))")
  show "wf (measure (\<lambda>(d, s). load (timers s)))"
    by simp
next
  fix d :: nat and s :: chat and t :: "nat \<times> timer_action"
  assume n: "nextDue d (timers s) = Some t"
  have m: "nextDue d ts = Some t \<Longrightarrow> t \<in> set ts" for ts
    by (induction ts) (auto split: option.splits if_splits)
  from n have "t \<in> set (timers s)"
    by (rule m)
  then have l: "load (timers s) = weight (snd t) + load (remove1 t (timers s))"
    unfolding load_def by (rule sum_list_map_remove1)
  have e: "load (elapse r ts) = load ts" for r ts
    by (simp add: load_def elapse_def comp_def)
  let ?s = "s\<lparr>timers := elapse (fst t) (remove1 t (timers s))\<rparr>"
  have "load (timers (fireTimer (snd t) ?s)) < weight (snd t) + load (timers ?s)"
    by (cases "snd t")
      (simp_all add: scrollToBottom_def perform_def setTimeout_def load_def)
  with l e show "((d - fst t, fireTimer (snd t) ?s), (d, s)) \<in> measure (\<lambda>(d, s). load (timers s))"
    by simp
qed

declare tick.simps [simp del]

text \<open>The next frame is painted: the callbacks requested so far run in order.\<close>

definition animationFrame :: "chat \<Rightarrow> chat" where
  "animationFrame s = foldl (\<lambda>acc f. runFrame f acc) (s\<lparr>frames := []\<rparr>) (frames s)"

datatype event =
    Intersect "bool list"      \<comment> \<open>the observer reports; one \<open>isIntersecting\<close> per entry\<close>
  | Scroll bool                \<comment> \<open>\<open>onScroll\<close>, with \<open>isStreaming\<close> of the render\<close>
  | ContentChange bool         \<comment> \<open>the auto-scroll effect runs, with \<open>isStreaming\<close>\<close>
  | JumpClick                  \<comment> \<open>the button: \<open>handleScrollToBottom\<close>\<close>
  | HostScroll bool            \<comment> \<open>the host calls \<open>scrollToBottom\<close>\<close>
  | LoadOld                    \<comment> \<open>\<open>handleLoadOldMessages\<close>\<close>
  | NewChat                    \<comment> \<open>\<open>handleNewChat\<close>\<close>
  | SetLoading bool            \<comment> \<open>the host calls \<open>setIsLoadingOldMessages\<close>\<close>
  | Frame
  | Tick nat
  | Dom container              \<comment> \<open>layout or the user changed the container\<close>
  | Refs bool bool             \<comment> \<open>container and anchor are mounted or unmounted\<close>

fun step :: "event \<Rightarrow> chat \<Rightarrow> chat" where
  "step (Intersect entries) s = observerCallback entries s"
| "step (Scroll isStreaming) s = handleScroll isStreaming s"
| "step (ContentChange isStreaming) s = autoScrollEffect isStreaming s"
| "step JumpClick s = handleScrollToBottom s"
| "step (HostScroll smooth) s = scrollToBottom smooth s"
| "step LoadOld s = handleLoadOldMessages s"
| "step NewChat s = handleNewChat s"
| "step (SetLoading b) s = s\<lparr>isLoadingOldMessages := b\<rparr>"
| "step Frame s = animationFrame s"
| "step (Tick d) s = tick d s"
| "step (Dom c) s = s\<lparr>element := c\<rparr>"
| "step (Refs c a) s = s\<lparr>chatMessagesRef := c, messagesEndRef := a\<rparr>"

definition run :: "event list \<Rightarrow> chat \<Rightarrow> chat" where
  "run es s = foldl (\<lambda>acc e. step e acc) s es"

text \<open>The first render: the \<open>useState\<close> and \<open>useRef\<close> initial values, nothing mounted.\<close>

definition initial :: chat where
  "initial =
     \<lparr>isAtBottom = True, shouldAutoScroll = True, isUserScrolling = False,
      isLoadingOldMessages = False, isScrollingProgrammaticallyRef = False,
      chatMessagesRef = False, messagesEndRef = False,
      element = \<lparr>scrollTop = 0, scrollHeight = 0, clientHeight = 0\<rparr>,
      timers = [], frames = [], effects = []\<rparr>"

subsection \<open>The offset-arithmetic version of the hook\<close>

text \<open>
  The state of \<open>src/useAutoScroll.ts\<close>. \<open>chatMessagesRef_B\<close> is the container as the
  handler finds it, \<open>None\<close> when \<open>.current\<close> is null. \<open>scrollTimeoutRef\<close> is the
  remaining delay of the timer that the ref names while that timer is live, and \<open>None\<close>
  otherwise: \<open>clearTimeout\<close> on a timer that has fired does nothing. A frame callback is
  the \<open>smooth\<close> argument of the \<open>scrollToBottom\<close> it will make; a \<open>scrollTo\<close> call is
  logged with its \<open>top\<close> and whether it is smooth.
\<close>

record hook_B = flags +
  chatMessagesRef_B :: "container option"
  scrollTimeoutRef :: "nat option"
  frames_B :: "bool list"
  scrollToCalls :: "(int \<times> bool) list"

definition observerCallback_B :: "bool list \<Rightarrow> hook_B \<Rightarrow> hook_B" where
  "observerCallback_B entries s =
     foldl (\<lambda>acc isIntersecting. acc\<lparr>isAtBottom := isIntersecting\<rparr>) s entries"

definition scrollToBottom_B :: "bool \<Rightarrow> hook_B \<Rightarrow> hook_B" where
  "scrollToBottom_B smooth s =
     (case chatMessagesRef_B s of
        None \<Rightarrow> s
      | Some c \<Rightarrow> s\<lparr>scrollToCalls := scrollToCalls s @ [(scrollHeight c, smooth)]\<rparr>)"

definition autoScrollEffect_B :: "bool \<Rightarrow> hook_B \<Rightarrow> hook_B" where
  "autoScrollEffect_B isStreaming s =
     (if shouldAutoScroll s \<and> isAtBottom s
      then s\<lparr>frames_B := frames_B s @ [\<not> isStreaming]\<rparr>
      else s)"

text \<open>
  \<open>handleScroll\<close>: cancel the pending timer, return when there is no container, else
  recompute \<open>atBottom\<close> from the offsets and act on it. The timer's callback tests the
  \<open>atBottom\<close> of its closure, which is true whenever the timer is started.
\<close>

definition handleScroll_B :: "bool \<Rightarrow> hook_B \<Rightarrow> hook_B" where
  "handleScroll_B isStreaming s =
     (let s0 = s\<lparr>scrollTimeoutRef := None\<rparr> in
      case chatMessagesRef_B s0 of
        None \<Rightarrow> s0
      | Some c \<Rightarrow>
          let atBottom = (scrollHeight c - clientHeight c \<le> scrollTop c + 1);
              s1 = s0\<lparr>isAtBottom := atBottom\<rparr>;
              s2 = (if \<not> atBottom \<and> \<not> isStreaming
                    then s1\<lparr>isUserScrolling := True, shouldAutoScroll := False\<rparr>
                    else s1)
          in if atBottom
             then s2\<lparr>shouldAutoScroll := True, scrollTimeoutRef := Some 150\<rparr>
             else s2)"

definition handleScrollToBottom_B :: "hook_B \<Rightarrow> hook_B" where
  "handleScrollToBottom_B s =
     scrollToBottom_B True (s\<lparr>shouldAutoScroll := True, isUserScrolling := False\<rparr>)"

definition tick_B :: "nat \<Rightarrow> hook_B \<Rightarrow> hook_B" where
  "tick_B d s =
     (case scrollTimeoutRef s of
        None \<Rightarrow> s
      | Some r \<Rightarrow>
          if r \<le> d then s\<lparr>isUserScrolling := False, scrollTimeoutRef := None\<rparr>
          else s\<lparr>scrollTimeoutRef := Some (r - d)\<rparr>)"

definition animationFrame_B :: "hook_B \<Rightarrow> hook_B" where
  "animationFrame_B s =
     foldl (\<lambda>acc smooth. scrollToBottom_B smooth acc) (s\<lparr>frames_B := []\<rparr>) (frames_B s)"

datatype event_B =
    Intersect_B "bool list"
  | Scroll_B bool
  | ContentChange_B bool
  | JumpClick_B
  | HostScroll_B bool
  | SetLoading_B bool
  | Frame_B
  | Tick_B nat
  | Dom_B "container option"   \<comment> \<open>layout, the user, mounting or unmounting\<close>
  | Unmount_B                  \<comment> \<open>the cleanup effect: \<open>clearTimeout\<close>\<close>

fun step_B :: "event_B \<Rightarrow> hook_B \<Rightarrow> hook_B" where
  "step_B (Intersect_B entries) s = observerCallback_B entries s"
| "step_B (Scroll_B isStreaming) s = handleScroll_B isStreaming s"
| "step_B (ContentChange_B isStreaming) s = autoScrollEffect_B isStreaming s"
| "step_B JumpClick_B s = handleScrollToBottom_B s"
| "step_B (HostScroll_B smooth) s = scrollToBottom_B smooth s"
| "step_B (SetLoading_B b) s = s\<lparr>isLoadingOldMessages := b\<rparr>"
| "step_B Frame_B s = animationFrame_B s"
| "step_B (Tick_B d) s = tick_B d s"
| "step_B (Dom_B c) s = s\<lparr>chatMessagesRef_B := c\<rparr>"
| "step_B Unmount_B s = s\<lparr>scrollTimeoutRef := None\<rparr>"

definition run_B :: "event_B list \<Rightarrow> hook_B \<Rightarrow> hook_B" where
  "run_B es s = foldl (\<lambda>acc e. step_B e acc) s es"

definition initial_B :: hook_B where
  "initial_B =
     \<lparr>isAtBottom = True, shouldAutoScroll = True, isUserScrolling = False,
      isLoadingOldMessages = False, chatMessagesRef_B = None, scrollTimeoutRef = None,
      frames_B = [], scrollToCalls = []\<rparr>"


definition atBottom_B :: "container \<Rightarrow> bool" where
  "atBottom_B c \<longleftrightarrow> scrollHeight c - clientHeight c \<le> scrollTop c + 1"

subsection \<open>Predicates used in the statements\<close>

fun isCompensate :: "frame_action \<Rightarrow> bool" where
  "isCompensate (Compensate scrollTopBefore scrollHeightBefore) = True"
| "isCompensate f = False"

text \<open>
  The loading flag is up and nothing that is queued will take it down: no timer clears
  it and no frame callback will start such a timer.
\<close>

definition lockedOut :: "chat \<Rightarrow> bool" where
  "lockedOut s \<longleftrightarrow>
     isLoadingOldMessages s
     \<and> \<not> list_ex (\<lambda>t. snd t = ClearLoading) (timers s)
     \<and> \<not> list_ex isCompensate (frames s)"

text \<open>The events by which the host itself writes the loading flag.\<close>

fun releasing :: "event \<Rightarrow> bool" where
  "releasing LoadOld = True"
| "releasing NewChat = True"
| "releasing (SetLoading b) = True"
| "releasing e = False"

section \<open>Properties\<close>

subsection \<open>Auxiliary facts\<close>

lemmas handlers =
  observerEntry_def setTimeout_def requestAnimationFrame_def perform_def
  scrollToBottom_def autoScrollEffect_def handleScroll_def handleScrollToBottom_def
  handleNewChat_def handleLoadOldMessages_def compensate_def

text \<open>The observer's loop while the ref is raised: only \<open>isAtBottom\<close> is written.\<close>

lemma observer_loop_in_flight:
  "isScrollingProgrammaticallyRef acc \<Longrightarrow>
   foldl (\<lambda>acc nowAtBottom. observerEntry w nowAtBottom acc) acc entries =
     acc\<lparr>isAtBottom := (if entries = [] then isAtBottom acc else last entries)\<rparr>"
  by (induction entries arbitrary: acc) (simp_all add: observerEntry_def)

text \<open>The loop never touches the ref, the loading flag or the queues.\<close>

lemma observer_loop_frame:
  "isScrollingProgrammaticallyRef (foldl (\<lambda>acc n. observerEntry w n acc) acc entries)
     = isScrollingProgrammaticallyRef acc
   \<and> isLoadingOldMessages (foldl (\<lambda>acc n. observerEntry w n acc) acc entries)
     = isLoadingOldMessages acc
   \<and> isAtBottom (foldl (\<lambda>acc n. observerEntry w n acc) acc entries)
     = (if entries = [] then isAtBottom acc else last entries)"
  by (induction entries arbitrary: acc) (simp_all add: observerEntry_def Let_def)

lemma observer_loop_queues:
  "timers (foldl (\<lambda>acc n. observerEntry w n acc) acc entries) = timers acc
   \<and> frames (foldl (\<lambda>acc n. observerEntry w n acc) acc entries) = frames acc"
  by (induction entries arbitrary: acc) (simp_all add: observerEntry_def Let_def)

text \<open>
  With the ref down and a captured \<open>isAtBottom\<close> of false, one intersecting entry is
  enough to restore auto-follow, and later entries do not undo it.
\<close>

lemma observer_loop_arrival:
  "\<not> w \<Longrightarrow> \<not> isScrollingProgrammaticallyRef acc \<Longrightarrow>
   (True \<in> set entries \<or> (shouldAutoScroll acc \<and> \<not> isUserScrolling acc)) \<Longrightarrow>
   shouldAutoScroll (foldl (\<lambda>acc n. observerEntry w n acc) acc entries)
   \<and> \<not> isUserScrolling (foldl (\<lambda>acc n. observerEntry w n acc) acc entries)"
  by (induction entries arbitrary: acc) (auto simp add: observerEntry_def Let_def)

text \<open>
  The observer of the offset-arithmetic version has no ref to consult: it writes
  \<open>isAtBottom\<close> and nothing else.
\<close>

lemma observerCallback_B_flags:
  "observerCallback_B entries s
     = s\<lparr>isAtBottom := (if entries = [] then isAtBottom s else last entries)\<rparr>"
  unfolding observerCallback_B_def
  by (induction entries arbitrary: s) simp_all

text \<open>Frame callbacks change the scroll offset of the container, never its extent.\<close>

lemma runFrame_scrollHeight:
  "scrollHeight (element (runFrame f s)) = scrollHeight (element s)"
  by (cases f) (simp_all add: handlers Let_def)

lemma frames_loop_scrollHeight:
  "scrollHeight (element (foldl (\<lambda>acc f. runFrame f acc) s fs)) = scrollHeight (element s)"
  by (induction fs arbitrary: s) (simp_all add: runFrame_scrollHeight)

lemma compensate_scrollTop:
  "scrollTop (element (compensate t h s)) = t + (scrollHeight (element s) - h)"
  by (simp add: compensate_def setTimeout_def Let_def)

text \<open>The next timer is one of the queue and is due; without one nothing is due.\<close>

lemma nextDue_Some: "nextDue d ts = Some t \<Longrightarrow> t \<in> set ts \<and> fst t \<le> d"
  by (induction ts arbitrary: t) (auto split: option.splits if_splits)

lemma nextDue_None: "nextDue d ts = None \<Longrightarrow> t \<in> set ts \<Longrightarrow> d < fst t"
  by (induction ts) (auto split: option.splits if_splits)

text \<open>
  If the ref is up only while a timer that lowers it is due within \<open>d\<close> milliseconds,
  it is down after them: a deferred scroll that raises it on the way starts its own
  timer of 0 ms.
\<close>

lemma tick_clears:
  "(isScrollingProgrammaticallyRef s \<longrightarrow>
      (\<exists>r\<le>d. (r, ClearProgrammatic) \<in> set (timers s))) \<Longrightarrow>
   \<not> isScrollingProgrammaticallyRef (tick d s)"
proof (induction d s rule: tick.induct)
  case (1 d s)
  show ?case
  proof (cases "nextDue d (timers s)")
    case None
    then have "\<And>t. t \<in> set (timers s) \<Longrightarrow> d < fst t"
      by (rule nextDue_None)
    with "1.prems" have "\<not> isScrollingProgrammaticallyRef s"
      by fastforce
    with None show ?thesis
      by (simp add: tick.simps [of d s])
  next
    case (Some t)
    let ?s = "s\<lparr>timers := elapse (fst t) (remove1 t (timers s))\<rparr>"
    have keep: "isScrollingProgrammaticallyRef s \<Longrightarrow> snd t \<noteq> ClearProgrammatic \<Longrightarrow>
        \<exists>r\<le>d - fst t. (r, ClearProgrammatic) \<in> set (timers ?s)"
    proof -
      assume "isScrollingProgrammaticallyRef s" and n: "snd t \<noteq> ClearProgrammatic"
      with "1.prems" obtain r where r: "r \<le> d" "(r, ClearProgrammatic) \<in> set (timers s)"
        by blast
      with n have "(r, ClearProgrammatic) \<in> set (remove1 t (timers s))"
        by (cases t) auto
      then have "(r - fst t, ClearProgrammatic) \<in> set (timers ?s)"
        by (force simp add: elapse_def)
      moreover from r have "r - fst t \<le> d - fst t"
        by simp
      ultimately show ?thesis by blast
    qed
    have "isScrollingProgrammaticallyRef (fireTimer (snd t) ?s) \<longrightarrow>
        (\<exists>r\<le>d - fst t. (r, ClearProgrammatic) \<in> set (timers (fireTimer (snd t) ?s)))"
    proof (cases "snd t")
      case ClearProgrammatic
      then show ?thesis by simp
    next
      case ClearLoading
      with keep show ?thesis by auto
    next
      case DeferredScroll
      with keep show ?thesis
        by (auto simp add: scrollToBottom_def perform_def setTimeout_def)
    qed
    with "1.IH" [OF Some] Some show ?thesis
      by (simp add: tick.simps [of d s])
  qed
qed

text \<open>
  New Chat with the anchor mounted: ten milliseconds later the deferred scroll has run,
  its own timer has fired, the ref is down and no timer is left.
\<close>

lemma new_chat_settles:
  "\<not> isScrollingProgrammaticallyRef (run [Refs True True, NewChat, Tick 10] initial)
   \<and> timers (run [Refs True True, NewChat, Tick 10] initial) = []
   \<and> effects (run [Refs True True, NewChat, Tick 10] initial)
       = [OnNewChat, ScrollIntoView False]"
  by (simp add: run_def handleNewChat_def perform_def setTimeout_def scrollToBottom_def
      initial_def tick.simps elapse_def)

subsection \<open>The loading flag once nothing is queued to clear it\<close>

lemma scrollToBottom_lockedOut: "lockedOut s \<Longrightarrow> lockedOut (scrollToBottom smooth s)"
  by (simp add: lockedOut_def scrollToBottom_def perform_def setTimeout_def)

lemma frames_loop_lockedOut:
  "lockedOut s \<Longrightarrow> \<not> list_ex isCompensate fs \<Longrightarrow>
   lockedOut (foldl (\<lambda>acc f. runFrame f acc) s fs)"
proof (induction fs arbitrary: s)
  case Nil
  then show ?case by simp
next
  case (Cons f fs)
  from Cons.prems have "lockedOut (runFrame f s)"
    by (cases f) (simp_all add: scrollToBottom_lockedOut)
  with Cons show ?case by simp
qed

lemma tick_lockedOut: "lockedOut s \<Longrightarrow> lockedOut (tick d s)"
proof (induction d s rule: tick.induct)
  case (1 d s)
  show ?case
  proof (cases "nextDue d (timers s)")
    case None
    with "1.prems" show ?thesis
      by (simp add: tick.simps [of d s] lockedOut_def elapse_def list_ex_iff)
  next
    case (Some t)
    let ?s = "s\<lparr>timers := elapse (fst t) (remove1 t (timers s))\<rparr>"
    from Some have t: "t \<in> set (timers s)"
      by (simp add: nextDue_Some)
    with "1.prems" have a: "snd t \<noteq> ClearLoading"
      by (auto simp add: lockedOut_def list_ex_iff)
    from "1.prems" have "lockedOut ?s"
      by (auto simp add: lockedOut_def elapse_def list_ex_iff dest: notin_set_remove1)
    with a have "lockedOut (fireTimer (snd t) ?s)"
      by (cases "snd t") (simp_all add: scrollToBottom_lockedOut, simp add: lockedOut_def)
    with "1.IH" [OF Some] Some show ?thesis
      by (simp add: tick.simps [of d s])
  qed
qed

lemma animationFrame_lockedOut: "lockedOut s \<Longrightarrow> lockedOut (animationFrame s)"
proof -
  assume l: "lockedOut s"
  then have "lockedOut (s\<lparr>frames := []\<rparr>)"
    by (simp add: lockedOut_def)
  moreover from l have "\<not> list_ex isCompensate (frames s)"
    by (simp add: lockedOut_def)
  ultimately show ?thesis
    by (simp add: animationFrame_def frames_loop_lockedOut)
qed

lemma step_lockedOut: "lockedOut s \<Longrightarrow> \<not> releasing e \<Longrightarrow> lockedOut (step e s)"
proof (cases e)
  case (Intersect entries)
  assume "lockedOut s"
  with Intersect show ?thesis
    using observer_loop_queues [where w = "isAtBottom s" and acc = s and entries = entries]
      observer_loop_frame [where w = "isAtBottom s" and acc = s and entries = entries]
    by (simp add: lockedOut_def observerCallback_def)
qed (simp_all add: tick_lockedOut animationFrame_lockedOut scrollToBottom_lockedOut,
     simp_all add: lockedOut_def handlers)

text \<open>
  Whatever else happens (scrolling, observer reports, content changes, clicks on the
  button, frames, any amount of time), a flag that is locked out stays up and the
  button stays hidden until the host writes the flag itself.
\<close>

lemma run_lockedOut:
  "lockedOut s \<Longrightarrow> \<forall>e\<in>set es. \<not> releasing e \<Longrightarrow>
   isLoadingOldMessages (run es s) \<and> \<not> showScrollButton (run es s)"
proof -
  have "lockedOut s \<Longrightarrow> \<forall>e\<in>set es. \<not> releasing e \<Longrightarrow> lockedOut (run es s)"
    unfolding run_def
    by (induction es arbitrary: s) (simp_all add: step_lockedOut)
  then show "lockedOut s \<Longrightarrow> \<forall>e\<in>set es. \<not> releasing e \<Longrightarrow> ?thesis"
    by (simp add: lockedOut_def showScrollButton_def)
qed

lemma load_without_container:
  "\<not> chatMessagesRef s \<Longrightarrow> handleLoadOldMessages s = s\<lparr>isLoadingOldMessages := True\<rparr>"
  by (simp add: handleLoadOldMessages_def)

lemma load_without_container_lockedOut:
  "\<not> chatMessagesRef s \<Longrightarrow> \<not> list_ex (\<lambda>t. snd t = ClearLoading) (timers s) \<Longrightarrow>
   \<not> list_ex isCompensate (frames s) \<Longrightarrow> lockedOut (handleLoadOldMessages s)"
  by (simp add: load_without_container lockedOut_def)

text \<open>The other path: with a container the flag comes down 500 ms after the frame.\<close>

lemma load_with_container_releases:
  "chatMessagesRef s \<Longrightarrow> timers s = [] \<Longrightarrow> frames s = [] \<Longrightarrow>
   isLoadingOldMessages (run [LoadOld, Frame] s)
   \<and> timers (run [LoadOld, Frame] s) = [(500, ClearLoading)]
   \<and> isLoadingOldMessages (run [LoadOld, Frame, Tick 499] s)
   \<and> \<not> isLoadingOldMessages (run [LoadOld, Frame, Tick 500] s)"
  by (simp add: run_def handleLoadOldMessages_def perform_def requestAnimationFrame_def
      animationFrame_def compensate_def setTimeout_def tick.simps elapse_def Let_def)

subsection \<open>Scroll trains in the offset-arithmetic version\<close>





section \<open>The claims\<close>

text \<open>
  C1. After every sequence of events, in both versions of the hook, the jump-to-bottom
  button is shown if and only if \<open>isAtBottom\<close> is false, \<open>isLoadingOldMessages\<close> is
  false and \<open>isUserScrolling\<close> is true; so whenever it is shown, \<open>isAtBottom\<close> is false.
\<close>

theorem affordance_invariant:
  "(showScrollButton (run es initial) \<longleftrightarrow>
      \<not> isAtBottom (run es initial) \<and> \<not> isLoadingOldMessages (run es initial)
      \<and> isUserScrolling (run es initial))
   \<and> (showScrollButton (run es initial) \<longrightarrow> \<not> isAtBottom (run es initial))
   \<and> (showScrollButton (run_B es' initial_B) \<longleftrightarrow>
      \<not> isAtBottom (run_B es' initial_B) \<and> \<not> isLoadingOldMessages (run_B es' initial_B)
      \<and> isUserScrolling (run_B es' initial_B))
   \<and> (showScrollButton (run_B es' initial_B) \<longrightarrow> \<not> isAtBottom (run_B es' initial_B))"
  by (simp add: showScrollButton_def)

text \<open>The button is shown after the user has scrolled away, in either version.\<close>

theorem affordance_invariant_witness:
  "showScrollButton (run [Intersect [False], Scroll False] initial)
   \<and> \<not> isAtBottom (run [Intersect [False], Scroll False] initial)
   \<and> showScrollButton (run_B [Dom_B (Some \<lparr>scrollTop = 0, scrollHeight = 1000,
        clientHeight = 400\<rparr>), Scroll_B False] initial_B)
   \<and> \<not> isAtBottom (run_B [Dom_B (Some \<lparr>scrollTop = 0, scrollHeight = 1000,
        clientHeight = 400\<rparr>), Scroll_B False] initial_B)"
proof -
  have a: "showScrollButton (run [Intersect [False], Scroll False] initial)"
    by (simp add: run_def observerCallback_def observerEntry_def handleScroll_def
        initial_def showScrollButton_def)
  have b: "showScrollButton (run_B [Dom_B (Some \<lparr>scrollTop = 0, scrollHeight = 1000,
        clientHeight = 400\<rparr>), Scroll_B False] initial_B)"
    by (simp add: run_B_def handleScroll_B_def initial_B_def showScrollButton_def)
  from a b affordance_invariant [of "[Intersect [False], Scroll False]"
      "[Dom_B (Some \<lparr>scrollTop = 0, scrollHeight = 1000, clientHeight = 400\<rparr>), Scroll_B False]"]
  show ?thesis by blast
qed

text \<open>
  C2, amended. In the observer version, while \<open>isScrollingProgrammaticallyRef\<close> is
  raised, a scroll event changes nothing at all, and an observer report leaves
  \<open>shouldAutoScroll\<close>, \<open>isUserScrolling\<close> and \<open>isLoadingOldMessages\<close> as they were; the
  report still writes \<open>isAtBottom\<close>, which takes the value of the last entry.
  The offset-arithmetic version has no such ref and suppresses nothing: a scroll event
  that follows the hook's own \<open>scrollToBottom\<close> is handled like any other, so it
  stores the recomputed \<open>isAtBottom\<close>, sets \<open>shouldAutoScroll\<close> when the view is at the
  bottom, and sets \<open>isUserScrolling\<close> and clears \<open>shouldAutoScroll\<close> when it is not and
  nothing is streaming; it never writes \<open>isLoadingOldMessages\<close>. An observer report
  there writes \<open>isAtBottom\<close> only.
\<close>

theorem in_flight_suppression:
  "(isScrollingProgrammaticallyRef s \<longrightarrow>
     step (Scroll isStreaming) s = s
     \<and> step (Intersect entries) s
        = s\<lparr>isAtBottom := (if entries = [] then isAtBottom s else last entries)\<rparr>
     \<and> shouldAutoScroll (step (Intersect entries) s) = shouldAutoScroll s
     \<and> isUserScrolling (step (Intersect entries) s) = isUserScrolling s
     \<and> isLoadingOldMessages (step (Intersect entries) s) = isLoadingOldMessages s)
   \<and> step_B (Intersect_B entries) t
        = t\<lparr>isAtBottom := (if entries = [] then isAtBottom t else last entries)\<rparr>
   \<and> isLoadingOldMessages (step_B (Scroll_B isStreaming) (scrollToBottom_B smooth t))
        = isLoadingOldMessages t
   \<and> (chatMessagesRef_B t = Some c \<longrightarrow>
        isAtBottom (step_B (Scroll_B isStreaming) (scrollToBottom_B smooth t)) = atBottom_B c
        \<and> shouldAutoScroll (step_B (Scroll_B isStreaming) (scrollToBottom_B smooth t))
            = (if atBottom_B c then True else if isStreaming then shouldAutoScroll t else False)
        \<and> isUserScrolling (step_B (Scroll_B isStreaming) (scrollToBottom_B smooth t))
            = (if \<not> atBottom_B c \<and> \<not> isStreaming then True else isUserScrolling t))
   \<and> (chatMessagesRef_B t = None \<longrightarrow>
        flags.truncate (step_B (Scroll_B isStreaming) (scrollToBottom_B smooth t))
          = flags.truncate t)"
  by (cases "chatMessagesRef_B t")
    (simp_all add: handleScroll_def observerCallback_def observer_loop_in_flight
      observerCallback_B_flags handleScroll_B_def scrollToBottom_B_def atBottom_B_def
      flags.truncate_def Let_def)

theorem in_flight_suppression_witness:
  "isScrollingProgrammaticallyRef (run [Refs True True, HostScroll True] initial)
   \<and> step (Scroll False) (run [Refs True True, HostScroll True] initial)
       = run [Refs True True, HostScroll True] initial
   \<and> shouldAutoScroll
       (step (Intersect [False, True]) (run [Refs True True, HostScroll True] initial))
   \<and> \<not> isUserScrolling
       (step (Intersect [False, True]) (run [Refs True True, HostScroll True] initial))
   \<and> isUserScrolling (step_B (Scroll_B False) (scrollToBottom_B True
       (step_B (Dom_B (Some \<lparr>scrollTop = 0, scrollHeight = 1000, clientHeight = 400\<rparr>))
          initial_B)))"
proof -
  let ?s = "run [Refs True True, HostScroll True] initial"
  let ?c = "\<lparr>scrollTop = 0, scrollHeight = 1000, clientHeight = 400\<rparr>"
  let ?t = "step_B (Dom_B (Some ?c)) initial_B"
  have a: "isScrollingProgrammaticallyRef ?s"
    by (simp add: run_def scrollToBottom_def perform_def setTimeout_def initial_def)
  have b: "shouldAutoScroll ?s" "\<not> isUserScrolling ?s"
    by (simp_all add: run_def scrollToBottom_def perform_def setTimeout_def initial_def)
  have c: "chatMessagesRef_B ?t = Some ?c" "\<not> atBottom_B ?c"
    by (simp_all add: atBottom_B_def)
  note i = in_flight_suppression [of ?s False "[False, True]" ?t True ?c]
  from a i have "step (Scroll False) ?s = ?s
      \<and> shouldAutoScroll (step (Intersect [False, True]) ?s) = shouldAutoScroll ?s
      \<and> isUserScrolling (step (Intersect [False, True]) ?s) = isUserScrolling ?s"
    by blast
  moreover from c i have "isUserScrolling (step_B (Scroll_B False) (scrollToBottom_B True ?t))
      = (if \<not> atBottom_B ?c \<and> \<not> False then True else isUserScrolling ?t)"
    by blast
  ultimately show ?thesis
    using a b c by simp
qed

text \<open>
  C2 as first stated fails twice. In the observer version, after a smooth
  \<open>scrollToBottom\<close> the ref is raised, and an observer report that the anchor has left
  the view still turns \<open>isAtBottom\<close> from true to false. In the offset-arithmetic
  version, right after the hook's own smooth \<open>scrollTo\<close> a scroll event that finds the
  view above the bottom rewrites \<open>isAtBottom\<close>, \<open>shouldAutoScroll\<close> and
  \<open>isUserScrolling\<close>.
\<close>

theorem in_flight_observer_counterexample:
  "isScrollingProgrammaticallyRef (run [Refs True True, HostScroll True] initial)
   \<and> isAtBottom (run [Refs True True, HostScroll True] initial)
   \<and> \<not> isAtBottom (step (Intersect [False]) (run [Refs True True, HostScroll True] initial))
   \<and> scrollToCalls (run_B [Dom_B (Some \<lparr>scrollTop = 0, scrollHeight = 1000,
        clientHeight = 400\<rparr>), HostScroll_B True] initial_B) = [(1000, True)]
   \<and> isAtBottom (run_B [Dom_B (Some \<lparr>scrollTop = 0, scrollHeight = 1000,
        clientHeight = 400\<rparr>), HostScroll_B True] initial_B)
   \<and> shouldAutoScroll (run_B [Dom_B (Some \<lparr>scrollTop = 0, scrollHeight = 1000,
        clientHeight = 400\<rparr>), HostScroll_B True] initial_B)
   \<and> \<not> isUserScrolling (run_B [Dom_B (Some \<lparr>scrollTop = 0, scrollHeight = 1000,
        clientHeight = 400\<rparr>), HostScroll_B True] initial_B)
   \<and> \<not> isAtBottom (step_B (Scroll_B False) (run_B [Dom_B (Some \<lparr>scrollTop = 0,
        scrollHeight = 1000, clientHeight = 400\<rparr>), HostScroll_B True] initial_B))
   \<and> \<not> shouldAutoScroll (step_B (Scroll_B False) (run_B [Dom_B (Some \<lparr>scrollTop = 0,
        scrollHeight = 1000, clientHeight = 400\<rparr>), HostScroll_B True] initial_B))
   \<and> isUserScrolling (step_B (Scroll_B False) (run_B [Dom_B (Some \<lparr>scrollTop = 0,
        scrollHeight = 1000, clientHeight = 400\<rparr>), HostScroll_B True] initial_B))"
  by (simp add: run_def scrollToBottom_def perform_def setTimeout_def observerCallback_def
      observerEntry_def initial_def run_B_def scrollToBottom_B_def handleScroll_B_def
      initial_B_def)

text \<open>
  C3. When the auto-scroll effect runs on a content change, in both versions, a frame
  callback is requested if and only if \<open>shouldAutoScroll\<close> and \<open>isAtBottom\<close> are
  both true then; nothing else changes; and the callback is \<open>scrollToBottom\<close> with
  smooth false while streaming and smooth true otherwise, which is what the next frame
  runs.
\<close>

theorem content_change_schedules:
  "(frames (step (ContentChange isStreaming) s) \<noteq> frames s
      \<longleftrightarrow> shouldAutoScroll s \<and> isAtBottom s)
   \<and> (shouldAutoScroll s \<and> isAtBottom s \<longrightarrow>
        step (ContentChange isStreaming) s
          = s\<lparr>frames := frames s @ [AutoScroll (\<not> isStreaming)]\<rparr>)
   \<and> (\<not> (shouldAutoScroll s \<and> isAtBottom s) \<longrightarrow> step (ContentChange isStreaming) s = s)
   \<and> (shouldAutoScroll s \<and> isAtBottom s \<and> frames s = [] \<longrightarrow>
        step Frame (step (ContentChange isStreaming) s) = scrollToBottom (\<not> isStreaming) s)
   \<and> (frames_B (step_B (ContentChange_B isStreaming) t) \<noteq> frames_B t
        \<longleftrightarrow> shouldAutoScroll t \<and> isAtBottom t)
   \<and> (shouldAutoScroll t \<and> isAtBottom t \<longrightarrow>
        step_B (ContentChange_B isStreaming) t
          = t\<lparr>frames_B := frames_B t @ [\<not> isStreaming]\<rparr>)
   \<and> (\<not> (shouldAutoScroll t \<and> isAtBottom t) \<longrightarrow> step_B (ContentChange_B isStreaming) t = t)
   \<and> (shouldAutoScroll t \<and> isAtBottom t \<and> frames_B t = [] \<longrightarrow>
        step_B Frame_B (step_B (ContentChange_B isStreaming) t)
          = scrollToBottom_B (\<not> isStreaming) t)"
proof -
  have a: "frames s = [] \<Longrightarrow> s\<lparr>frames := []\<rparr> = s"
    by (cases s) simp
  have b: "frames_B t = [] \<Longrightarrow> t\<lparr>frames_B := []\<rparr> = t"
    by (cases t) simp
  show ?thesis
    by (simp add: autoScrollEffect_def requestAnimationFrame_def autoScrollEffect_B_def
        animationFrame_def animationFrame_B_def a b)
qed

text \<open>
  At the bottom with auto-follow on, a content change while streaming leads to one
  instant \<open>scrollIntoView\<close> at the next frame, and one while not streaming to a
  smooth one; after the user has scrolled away nothing is requested.
\<close>

theorem content_change_schedules_witness:
  "effects (step Frame (step (ContentChange True) (step (Refs True True) initial)))
     = [ScrollIntoView False]
   \<and> effects (step Frame (step (ContentChange False) (step (Refs True True) initial)))
     = [ScrollIntoView True]
   \<and> frames (step (ContentChange False) (run [Intersect [False], Scroll False] initial)) = []
   \<and> frames_B (step_B (ContentChange_B True) initial_B) = [False]
   \<and> frames_B (step_B (ContentChange_B False)
       (run_B [Dom_B (Some \<lparr>scrollTop = 0, scrollHeight = 1000, clientHeight = 400\<rparr>),
          Scroll_B False] initial_B)) = []"
proof -
  let ?s = "step (Refs True True) initial"
  let ?u = "run [Intersect [False], Scroll False] initial"
  let ?v = "run_B [Dom_B (Some \<lparr>scrollTop = 0, scrollHeight = 1000,
        clientHeight = 400\<rparr>), Scroll_B False] initial_B"
  have s: "shouldAutoScroll ?s \<and> isAtBottom ?s \<and> frames ?s = []"
    by (simp add: initial_def)
  have u: "\<not> (shouldAutoScroll ?u \<and> isAtBottom ?u)" and fu: "frames ?u = []"
    by (simp_all add: run_def observerCallback_def observerEntry_def handleScroll_def
        initial_def)
  have t: "shouldAutoScroll initial_B \<and> isAtBottom initial_B" and ft: "frames_B initial_B = []"
    by (simp_all add: initial_B_def)
  have v: "\<not> (shouldAutoScroll ?v \<and> isAtBottom ?v)" and fv: "frames_B ?v = []"
    by (simp_all add: run_B_def handleScroll_B_def initial_B_def)
  have e: "effects (scrollToBottom b ?s) = [ScrollIntoView b]" for b
    by (simp add: scrollToBottom_def perform_def setTimeout_def initial_def)
  have a1: "step Frame (step (ContentChange True) ?s) = scrollToBottom (\<not> True) ?s"
    using s content_change_schedules [of True ?s initial_B] by blast
  have a2: "step Frame (step (ContentChange False) ?s) = scrollToBottom (\<not> False) ?s"
    using s content_change_schedules [of False ?s initial_B] by blast
  have a3: "step (ContentChange False) ?u = ?u"
    using u content_change_schedules [of False ?u initial_B] by blast
  have b1: "step_B (ContentChange_B True) initial_B
      = initial_B\<lparr>frames_B := frames_B initial_B @ [\<not> True]\<rparr>"
    using t content_change_schedules [of True ?s initial_B] by blast
  have b2: "step_B (ContentChange_B False) ?v = ?v"
    using v content_change_schedules [of False ?s ?v] by blast
  show ?thesis
    unfolding a1 a2 a3 b1 b2
    using e [of True] e [of False] fu ft fv by simp
qed

text \<open>
  C4, amended. In the observer version: when \<open>isAtBottom\<close> was false and the observer
  reports that the anchor is in view, with \<open>isScrollingProgrammaticallyRef\<close> down,
  handling the report sets \<open>shouldAutoScroll\<close> to true and \<open>isUserScrolling\<close> to false
  (and \<open>isAtBottom\<close> to true); with the ref raised, a report changes neither
  \<open>shouldAutoScroll\<close> nor \<open>isUserScrolling\<close>. In the offset-arithmetic version, which
  has no such ref, a report only sets \<open>isAtBottom\<close> and never changes
  \<open>shouldAutoScroll\<close> or \<open>isUserScrolling\<close>; there it is the scroll event finding the
  view at the bottom that sets \<open>shouldAutoScroll\<close>.
\<close>

theorem observer_arrival:
  "(\<not> isAtBottom s \<and> \<not> isScrollingProgrammaticallyRef s \<and> entries \<noteq> [] \<and> last entries \<longrightarrow>
      shouldAutoScroll (step (Intersect entries) s)
      \<and> \<not> isUserScrolling (step (Intersect entries) s)
      \<and> isAtBottom (step (Intersect entries) s))
   \<and> (isScrollingProgrammaticallyRef s \<longrightarrow>
      shouldAutoScroll (step (Intersect entries) s) = shouldAutoScroll s
      \<and> isUserScrolling (step (Intersect entries) s) = isUserScrolling s)
   \<and> shouldAutoScroll (step_B (Intersect_B entries) t) = shouldAutoScroll t
   \<and> isUserScrolling (step_B (Intersect_B entries) t) = isUserScrolling t
   \<and> (entries \<noteq> [] \<longrightarrow> isAtBottom (step_B (Intersect_B entries) t) = last entries)
   \<and> (chatMessagesRef_B t = Some c \<and> atBottom_B c \<longrightarrow>
      shouldAutoScroll (step_B (Scroll_B isStreaming) t)
      \<and> isAtBottom (step_B (Scroll_B isStreaming) t))"
proof (intro conjI impI)
  assume a: "\<not> isAtBottom s \<and> \<not> isScrollingProgrammaticallyRef s \<and> entries \<noteq> [] \<and> last entries"
  then have "True \<in> set entries"
    using last_in_set [of entries] by auto
  with a show "shouldAutoScroll (step (Intersect entries) s)"
    and "\<not> isUserScrolling (step (Intersect entries) s)"
    using observer_loop_arrival [where w = "isAtBottom s" and acc = s and entries = entries]
    by (simp_all add: observerCallback_def)
  from a show "isAtBottom (step (Intersect entries) s)"
    using observer_loop_frame [where w = "isAtBottom s" and acc = s and entries = entries]
    by (simp add: observerCallback_def)
next
  assume "isScrollingProgrammaticallyRef s"
  then show "shouldAutoScroll (step (Intersect entries) s) = shouldAutoScroll s"
    and "isUserScrolling (step (Intersect entries) s) = isUserScrolling s"
    by (simp_all add: observerCallback_def observer_loop_in_flight)
next
  assume "chatMessagesRef_B t = Some c \<and> atBottom_B c"
  then show "shouldAutoScroll (step_B (Scroll_B isStreaming) t)"
    and "isAtBottom (step_B (Scroll_B isStreaming) t)"
    by (simp_all add: handleScroll_B_def atBottom_B_def)
qed (simp_all add: observerCallback_B_flags)

text \<open>
  The user scrolls away and comes back: in the observer version auto-follow returns
  with the report, and the same arrival during a smooth scroll started by the host
  leaves both flags as the user's scroll set them. In the offset-arithmetic version
  the report leaves both flags, and the scroll event at the bottom sets
  \<open>shouldAutoScroll\<close>.
\<close>

theorem observer_arrival_witness:
  "\<not> shouldAutoScroll (run [Intersect [False], Scroll False] initial)
   \<and> isUserScrolling (run [Intersect [False], Scroll False] initial)
   \<and> shouldAutoScroll (step (Intersect [True]) (run [Intersect [False], Scroll False] initial))
   \<and> \<not> isUserScrolling (step (Intersect [True]) (run [Intersect [False], Scroll False] initial))
   \<and> \<not> shouldAutoScroll (step (Intersect [True])
        (run [Refs True True, Intersect [False], Scroll False, HostScroll True] initial))
   \<and> isUserScrolling (step (Intersect [True])
        (run [Refs True True, Intersect [False], Scroll False, HostScroll True] initial))
   \<and> shouldAutoScroll (step_B (Scroll_B False) (run_B [Dom_B (Some \<lparr>scrollTop = 0,
        scrollHeight = 1000, clientHeight = 400\<rparr>), Scroll_B False,
        Dom_B (Some \<lparr>scrollTop = 600, scrollHeight = 1000, clientHeight = 400\<rparr>)] initial_B))"
proof -
  let ?s = "run [Intersect [False], Scroll False] initial"
  let ?t = "run [Refs True True, Intersect [False], Scroll False, HostScroll True] initial"
  let ?c = "\<lparr>scrollTop = 600, scrollHeight = 1000, clientHeight = 400\<rparr>"
  let ?u = "run_B [Dom_B (Some \<lparr>scrollTop = 0, scrollHeight = 1000, clientHeight = 400\<rparr>),
        Scroll_B False, Dom_B (Some ?c)] initial_B"
  have s: "\<not> isAtBottom ?s \<and> \<not> isScrollingProgrammaticallyRef ?s
      \<and> \<not> shouldAutoScroll ?s \<and> isUserScrolling ?s"
    by (simp add: run_def observerCallback_def handlers initial_def)
  have t: "isScrollingProgrammaticallyRef ?t \<and> \<not> shouldAutoScroll ?t \<and> isUserScrolling ?t"
    by (simp add: run_def observerCallback_def handlers initial_def)
  have u: "chatMessagesRef_B ?u = Some ?c \<and> atBottom_B ?c"
    by (simp add: run_B_def handleScroll_B_def atBottom_B_def)
  have e: "[True] \<noteq> [] \<and> last [True]"
    by simp
  from s e have "shouldAutoScroll (step (Intersect [True]) ?s)
      \<and> \<not> isUserScrolling (step (Intersect [True]) ?s)"
    using observer_arrival [of ?s "[True]" ?u ?c False] by blast
  moreover from t have "shouldAutoScroll (step (Intersect [True]) ?t) = shouldAutoScroll ?t
      \<and> isUserScrolling (step (Intersect [True]) ?t) = isUserScrolling ?t"
    using observer_arrival [of ?t "[True]" ?u ?c False] by blast
  moreover from u have "shouldAutoScroll (step_B (Scroll_B False) ?u)"
    using observer_arrival [of ?s "[True]" ?u ?c False] by blast
  ultimately show ?thesis
    using s t by simp
qed

text \<open>
  C4 as first stated fails in the offset-arithmetic version: the user has scrolled
  away, so \<open>isAtBottom\<close> and \<open>shouldAutoScroll\<close> are false and \<open>isUserScrolling\<close> is
  true, and no scroll of the hook's own is under way; the observer then reports the
  anchor in view, and \<open>shouldAutoScroll\<close> stays false and \<open>isUserScrolling\<close> true.
\<close>

theorem observer_arrival_counterexample:
  "\<not> isAtBottom (run_B [Dom_B (Some \<lparr>scrollTop = 0, scrollHeight = 1000,
       clientHeight = 400\<rparr>), Scroll_B False] initial_B)
   \<and> scrollToCalls (run_B [Dom_B (Some \<lparr>scrollTop = 0, scrollHeight = 1000,
       clientHeight = 400\<rparr>), Scroll_B False] initial_B) = []
   \<and> isAtBottom (step_B (Intersect_B [True]) (run_B [Dom_B (Some \<lparr>scrollTop = 0,
       scrollHeight = 1000, clientHeight = 400\<rparr>), Scroll_B False] initial_B))
   \<and> \<not> shouldAutoScroll (step_B (Intersect_B [True]) (run_B [Dom_B (Some \<lparr>scrollTop = 0,
       scrollHeight = 1000, clientHeight = 400\<rparr>), Scroll_B False] initial_B))
   \<and> isUserScrolling (step_B (Intersect_B [True]) (run_B [Dom_B (Some \<lparr>scrollTop = 0,
       scrollHeight = 1000, clientHeight = 400\<rparr>), Scroll_B False] initial_B))"
  by (simp add: run_B_def handleScroll_B_def observerCallback_B_def initial_B_def)

text \<open>
  C5. A scroll event handled while no programmatic scroll is in flight: if the view is
  not at the bottom and nothing is streaming, \<open>isUserScrolling\<close> becomes true and
  \<open>shouldAutoScroll\<close> false; if the view is not at the bottom while streaming,
  neither flag changes. In the observer version "not at the bottom" is the flag
  \<open>isAtBottom\<close> and the ref must be down; in the offset-arithmetic version, which has
  no ref, it is the value the handler computes from the offsets and stores in
  \<open>isAtBottom\<close>.
\<close>

theorem scroll_away:
  "(\<not> isScrollingProgrammaticallyRef s \<and> \<not> isAtBottom s \<and> \<not> isStreaming \<longrightarrow>
      isUserScrolling (step (Scroll isStreaming) s)
      \<and> \<not> shouldAutoScroll (step (Scroll isStreaming) s))
   \<and> (\<not> isScrollingProgrammaticallyRef s \<and> \<not> isAtBottom s \<and> isStreaming \<longrightarrow>
      step (Scroll isStreaming) s = s)
   \<and> (chatMessagesRef_B t = Some c \<and> \<not> atBottom_B c \<and> \<not> isStreaming \<longrightarrow>
      \<not> isAtBottom (step_B (Scroll_B isStreaming) t)
      \<and> isUserScrolling (step_B (Scroll_B isStreaming) t)
      \<and> \<not> shouldAutoScroll (step_B (Scroll_B isStreaming) t))
   \<and> (chatMessagesRef_B t = Some c \<and> \<not> atBottom_B c \<and> isStreaming \<longrightarrow>
      \<not> isAtBottom (step_B (Scroll_B isStreaming) t)
      \<and> isUserScrolling (step_B (Scroll_B isStreaming) t) = isUserScrolling t
      \<and> shouldAutoScroll (step_B (Scroll_B isStreaming) t) = shouldAutoScroll t)"
  by (simp add: handleScroll_def handleScroll_B_def atBottom_B_def)

theorem scroll_away_witness:
  "isUserScrolling (step (Scroll False) (step (Intersect [False]) initial))
   \<and> \<not> shouldAutoScroll (step (Scroll False) (step (Intersect [False]) initial))
   \<and> step (Scroll True) (step (Intersect [False]) initial) = step (Intersect [False]) initial
   \<and> isUserScrolling (step_B (Scroll_B False) (step_B (Dom_B (Some \<lparr>scrollTop = 0,
        scrollHeight = 1000, clientHeight = 400\<rparr>)) initial_B))
   \<and> \<not> shouldAutoScroll (step_B (Scroll_B False) (step_B (Dom_B (Some \<lparr>scrollTop = 0,
        scrollHeight = 1000, clientHeight = 400\<rparr>)) initial_B))
   \<and> \<not> isUserScrolling (step_B (Scroll_B True) (step_B (Dom_B (Some \<lparr>scrollTop = 0,
        scrollHeight = 1000, clientHeight = 400\<rparr>)) initial_B))
   \<and> shouldAutoScroll (step_B (Scroll_B True) (step_B (Dom_B (Some \<lparr>scrollTop = 0,
        scrollHeight = 1000, clientHeight = 400\<rparr>)) initial_B))"
proof -
  let ?c = "\<lparr>scrollTop = 0, scrollHeight = 1000, clientHeight = 400\<rparr>"
  let ?s = "step (Intersect [False]) initial"
  let ?t = "step_B (Dom_B (Some ?c)) initial_B"
  have s: "\<not> isScrollingProgrammaticallyRef ?s \<and> \<not> isAtBottom ?s"
    by (simp add: observerCallback_def observerEntry_def initial_def)
  have t: "chatMessagesRef_B ?t = Some ?c \<and> \<not> atBottom_B ?c
      \<and> \<not> isUserScrolling ?t \<and> shouldAutoScroll ?t"
    by (simp add: atBottom_B_def initial_B_def)
  from s t scroll_away [of ?s False ?t ?c] scroll_away [of ?s True ?t ?c]
  show ?thesis by simp
qed

text \<open>
  C6. The jump-to-bottom handler, in both versions, sets \<open>shouldAutoScroll\<close> to true
  and \<open>isUserScrolling\<close> to false and then calls \<open>scrollToBottom\<close> with smooth true,
  whatever \<open>isAtBottom\<close> is; with the target mounted that is one smooth scroll call.
  Invoked twice in a row it leaves the four flags as one invocation does.
\<close>

theorem jump_to_bottom:
  "shouldAutoScroll (handleScrollToBottom s) \<and> \<not> isUserScrolling (handleScrollToBottom s)
   \<and> handleScrollToBottom s
       = scrollToBottom True (s\<lparr>shouldAutoScroll := True, isUserScrolling := False\<rparr>)
   \<and> handleScrollToBottom (s\<lparr>isAtBottom := b\<rparr>) = (handleScrollToBottom s)\<lparr>isAtBottom := b\<rparr>
   \<and> (messagesEndRef s \<longrightarrow>
        effects (handleScrollToBottom s) = effects s @ [ScrollIntoView True])
   \<and> shouldAutoScroll (handleScrollToBottom (handleScrollToBottom s))
   \<and> \<not> isUserScrolling (handleScrollToBottom (handleScrollToBottom s))
   \<and> flags.truncate (handleScrollToBottom (handleScrollToBottom s))
       = flags.truncate (handleScrollToBottom s)
   \<and> shouldAutoScroll (handleScrollToBottom_B t) \<and> \<not> isUserScrolling (handleScrollToBottom_B t)
   \<and> handleScrollToBottom_B t
       = scrollToBottom_B True (t\<lparr>shouldAutoScroll := True, isUserScrolling := False\<rparr>)
   \<and> handleScrollToBottom_B (t\<lparr>isAtBottom := b\<rparr>) = (handleScrollToBottom_B t)\<lparr>isAtBottom := b\<rparr>
   \<and> (chatMessagesRef_B t = Some c \<longrightarrow>
        scrollToCalls (handleScrollToBottom_B t) = scrollToCalls t @ [(scrollHeight c, True)])
   \<and> flags.truncate (handleScrollToBottom_B (handleScrollToBottom_B t))
       = flags.truncate (handleScrollToBottom_B t)"
  by (simp add: handleScrollToBottom_def scrollToBottom_def perform_def setTimeout_def
      handleScrollToBottom_B_def scrollToBottom_B_def flags.truncate_def
      split: option.split)

theorem jump_to_bottom_witness:
  "\<not> shouldAutoScroll (run [Refs True True, Intersect [False], Scroll False] initial)
   \<and> isUserScrolling (run [Refs True True, Intersect [False], Scroll False] initial)
   \<and> shouldAutoScroll
       (handleScrollToBottom (run [Refs True True, Intersect [False], Scroll False] initial))
   \<and> \<not> isUserScrolling
       (handleScrollToBottom (run [Refs True True, Intersect [False], Scroll False] initial))
   \<and> effects
       (handleScrollToBottom (run [Refs True True, Intersect [False], Scroll False] initial))
       = [ScrollIntoView True]
   \<and> scrollToCalls (handleScrollToBottom_B (run_B [Dom_B (Some \<lparr>scrollTop = 0,
        scrollHeight = 1000, clientHeight = 400\<rparr>), Scroll_B False] initial_B))
       = [(1000, True)]"
proof -
  let ?c = "\<lparr>scrollTop = 0, scrollHeight = 1000, clientHeight = 400\<rparr>"
  let ?s = "run [Refs True True, Intersect [False], Scroll False] initial"
  let ?t = "run_B [Dom_B (Some ?c), Scroll_B False] initial_B"
  have s: "messagesEndRef ?s \<and> effects ?s = [] \<and> \<not> shouldAutoScroll ?s \<and> isUserScrolling ?s"
    by (simp add: run_def observerCallback_def observerEntry_def handleScroll_def initial_def)
  have t: "chatMessagesRef_B ?t = Some ?c \<and> scrollToCalls ?t = []"
    by (simp add: run_B_def handleScroll_B_def initial_B_def)
  have "shouldAutoScroll (handleScrollToBottom ?s) \<and> \<not> isUserScrolling (handleScrollToBottom ?s)
      \<and> effects (handleScrollToBottom ?s) = effects ?s @ [ScrollIntoView True]
      \<and> scrollToCalls (handleScrollToBottom_B ?t) = scrollToCalls ?t @ [(scrollHeight ?c, True)]"
    using s t jump_to_bottom [of ?s True ?t ?c] by blast
  with s t show ?thesis by simp
qed

text \<open>
  C7. Loading older messages with the container mounted: whatever the layout does in
  between, the frame callback sets the container's scroll offset to the offset before
  the insertion plus the growth of the scroll height. From height 2000 and offset 500,
  with the height grown to 2800, the offset becomes 1300.
\<close>

theorem offset_compensation:
  "chatMessagesRef s \<Longrightarrow>
   scrollTop (element (run [LoadOld, Dom c, Frame] s))
     = scrollTop (element s) + (scrollHeight c - scrollHeight (element s))"
proof -
  assume m: "chatMessagesRef s"
  let ?t = "scrollTop (element s)" and ?h = "scrollHeight (element s)"
  let ?s1 = "(handleLoadOldMessages s)\<lparr>element := c\<rparr>"
  have fr: "frames ?s1 = frames s @ [Compensate ?t ?h]"
    using m by (simp add: handleLoadOldMessages_def perform_def requestAnimationFrame_def Let_def)
  have "run [LoadOld, Dom c, Frame] s = animationFrame ?s1"
    by (simp add: run_def)
  also have "\<dots> = compensate ?t ?h
      (foldl (\<lambda>acc f. runFrame f acc) (?s1\<lparr>frames := []\<rparr>) (frames s))"
    by (simp add: animationFrame_def fr)
  finally show ?thesis
    by (simp add: compensate_scrollTop frames_loop_scrollHeight)
qed

theorem offset_compensation_witness:
  "scrollTop (element (run [LoadOld,
       Dom \<lparr>scrollTop = 500, scrollHeight = 2800, clientHeight = 600\<rparr>, Frame]
     (initial\<lparr>chatMessagesRef := True,
        element := \<lparr>scrollTop = 500, scrollHeight = 2000, clientHeight = 600\<rparr>\<rparr>))) = 1300"
  using offset_compensation [of "initial\<lparr>chatMessagesRef := True,
        element := \<lparr>scrollTop = 500, scrollHeight = 2000, clientHeight = 600\<rparr>\<rparr>"
      "\<lparr>scrollTop = 500, scrollHeight = 2800, clientHeight = 600\<rparr>"]
  by simp


text \<open>
  C9, amended. In the observer version, a call of \<open>scrollToBottom\<close> made while the
  anchor is mounted raises \<open>isScrollingProgrammaticallyRef\<close> before it calls
  \<open>scrollIntoView\<close> and starts a timer of 500 ms when smooth and of 0 ms when not;
  once that delay has passed the ref is down, and after a smooth call with no other
  timer pending it is up until then. A call made while the anchor is absent changes
  nothing. The \<open>scrollToBottom\<close> of the offset-arithmetic version raises no flag and
  starts no timer: it only calls \<open>scrollTo\<close> when the container is mounted, and the
  scroll event that follows is handled as it would be without the call.
\<close>

theorem scrollToBottom_in_flight:
  "(messagesEndRef s \<longrightarrow>
      scrollToBottom smooth s
        = setTimeout ClearProgrammatic (if smooth then 500 else 0)
            (perform (ScrollIntoView smooth) (s\<lparr>isScrollingProgrammaticallyRef := True\<rparr>))
      \<and> isScrollingProgrammaticallyRef (scrollToBottom smooth s)
      \<and> effects (scrollToBottom smooth s) = effects s @ [ScrollIntoView smooth]
      \<and> timers (scrollToBottom smooth s)
          = timers s @ [(if smooth then 500 else 0, ClearProgrammatic)])
   \<and> (messagesEndRef s \<and> (if smooth then 500 else 0) \<le> d \<longrightarrow>
      \<not> isScrollingProgrammaticallyRef (tick d (scrollToBottom smooth s)))
   \<and> (messagesEndRef s \<and> timers s = [] \<and> d < 500 \<longrightarrow>
      isScrollingProgrammaticallyRef (tick d (scrollToBottom True s)))
   \<and> (\<not> messagesEndRef s \<longrightarrow> scrollToBottom smooth s = s)
   \<and> scrollToBottom_B smooth t
       = t\<lparr>scrollToCalls := scrollToCalls (scrollToBottom_B smooth t)\<rparr>
   \<and> (chatMessagesRef_B t = Some c \<longrightarrow>
        scrollToCalls (scrollToBottom_B smooth t) = scrollToCalls t @ [(scrollHeight c, smooth)])
   \<and> step_B (Scroll_B isStreaming) (scrollToBottom_B smooth t)
       = (step_B (Scroll_B isStreaming) t)
           \<lparr>scrollToCalls := scrollToCalls (scrollToBottom_B smooth t)\<rparr>"
proof (intro conjI impI)
  assume a: "messagesEndRef s \<and> (if smooth then 500 else 0) \<le> d"
  then have "((if smooth then 500 else 0), ClearProgrammatic)
      \<in> set (timers (scrollToBottom smooth s))"
    by (simp add: scrollToBottom_def perform_def setTimeout_def)
  with a have "\<exists>r\<le>d. (r, ClearProgrammatic) \<in> set (timers (scrollToBottom smooth s))"
    by blast
  then show "\<not> isScrollingProgrammaticallyRef (tick d (scrollToBottom smooth s))"
    by (simp add: tick_clears)
next
  assume "messagesEndRef s \<and> timers s = [] \<and> d < 500"
  then show "isScrollingProgrammaticallyRef (tick d (scrollToBottom True s))"
    by (simp add: scrollToBottom_def perform_def setTimeout_def tick.simps elapse_def)
qed (simp_all add: scrollToBottom_def perform_def setTimeout_def scrollToBottom_B_def
    handleScroll_B_def Let_def split: option.split)

theorem scrollToBottom_in_flight_witness:
  "isScrollingProgrammaticallyRef (scrollToBottom True (step (Refs True True) initial))
   \<and> isScrollingProgrammaticallyRef
       (tick 499 (scrollToBottom True (step (Refs True True) initial)))
   \<and> \<not> isScrollingProgrammaticallyRef
       (tick 500 (scrollToBottom True (step (Refs True True) initial)))
   \<and> isScrollingProgrammaticallyRef (scrollToBottom False (step (Refs True True) initial))
   \<and> \<not> isScrollingProgrammaticallyRef
       (tick 0 (scrollToBottom False (step (Refs True True) initial)))
   \<and> scrollToBottom True initial = initial
   \<and> scrollToCalls (scrollToBottom_B True (step_B (Dom_B (Some \<lparr>scrollTop = 0,
        scrollHeight = 1000, clientHeight = 400\<rparr>)) initial_B)) = [(1000, True)]"
proof -
  let ?s = "step (Refs True True) initial"
  let ?c = "\<lparr>scrollTop = 0, scrollHeight = 1000, clientHeight = 400\<rparr>"
  let ?t = "step_B (Dom_B (Some ?c)) initial_B"
  have m: "messagesEndRef ?s" and t: "timers ?s = []" and i: "\<not> messagesEndRef initial"
    and c: "chatMessagesRef_B ?t = Some ?c" and l: "scrollToCalls ?t = []"
    by (simp_all add: initial_def initial_B_def)
  have d: "(499::nat) < 500" "(if True then 500 else 0) \<le> (500::nat)"
    "(if False then 500 else 0) \<le> (0::nat)"
    by simp_all
  from m t d have "isScrollingProgrammaticallyRef (scrollToBottom True ?s)
      \<and> isScrollingProgrammaticallyRef (tick 499 (scrollToBottom True ?s))"
    using scrollToBottom_in_flight [of ?s True 499 ?t ?c False] by blast
  moreover from m d have "\<not> isScrollingProgrammaticallyRef (tick 500 (scrollToBottom True ?s))"
    using scrollToBottom_in_flight [of ?s True 500 ?t ?c False] by blast
  moreover from m d have "isScrollingProgrammaticallyRef (scrollToBottom False ?s)
      \<and> \<not> isScrollingProgrammaticallyRef (tick 0 (scrollToBottom False ?s))"
    using scrollToBottom_in_flight [of ?s False 0 ?t ?c False] by blast
  moreover from i have "scrollToBottom True initial = initial"
    using scrollToBottom_in_flight [of initial True 0 ?t ?c False] by blast
  moreover from c have "scrollToCalls (scrollToBottom_B True ?t)
      = scrollToCalls ?t @ [(scrollHeight ?c, True)]"
    using scrollToBottom_in_flight [of ?s True 500 ?t ?c False] by blast
  with l have "scrollToCalls (scrollToBottom_B True ?t) = [(1000, True)]"
    by simp
  ultimately show ?thesis by blast
qed

text \<open>
  C9 as first stated fails twice. In the observer version, before the anchor is
  mounted, a call of \<open>scrollToBottom\<close> leaves the ref down and the whole state as it
  was. In the offset-arithmetic version, a call with the container mounted does scroll,
  but changes nothing else, and the scroll event that follows while the view is still
  above the bottom is taken for the user's: it sets \<open>isUserScrolling\<close> and clears
  \<open>shouldAutoScroll\<close>.
\<close>

theorem scrollToBottom_without_anchor_counterexample:
  "\<not> isScrollingProgrammaticallyRef (step (HostScroll True) initial)
   \<and> step (HostScroll True) initial = initial
   \<and> step_B (HostScroll_B True) (step_B (Dom_B (Some \<lparr>scrollTop = 0, scrollHeight = 1000,
        clientHeight = 400\<rparr>)) initial_B)
       = (step_B (Dom_B (Some \<lparr>scrollTop = 0, scrollHeight = 1000,
        clientHeight = 400\<rparr>)) initial_B)\<lparr>scrollToCalls := [(1000, True)]\<rparr>
   \<and> isUserScrolling (step_B (Scroll_B False) (step_B (HostScroll_B True)
        (step_B (Dom_B (Some \<lparr>scrollTop = 0, scrollHeight = 1000, clientHeight = 400\<rparr>))
           initial_B)))
   \<and> \<not> shouldAutoScroll (step_B (Scroll_B False) (step_B (HostScroll_B True)
        (step_B (Dom_B (Some \<lparr>scrollTop = 0, scrollHeight = 1000, clientHeight = 400\<rparr>))
           initial_B)))"
  by (simp add: scrollToBottom_def initial_def scrollToBottom_B_def handleScroll_B_def
      initial_B_def)




end
